theory Spec2Isabelle
  imports Complex_Main "HOL-Library.AList"
begin

section \<open>Python strings and values\<close>

text \<open>
  A Python \<open>str\<close> is a sequence of Unicode code points, so \<open>len\<close> counts code points.
  The literals of the source that are not ASCII (\<open>PRE\<close>C-cedilla\<open>O\<close>, the bullet U+2022)
  are written with their code points. \<open>ustr\<close> reads an ASCII literal.
\<close>

type_synonym pystr = "nat list"

definition ustr :: "string \<Rightarrow> pystr" where
  "ustr s = map of_char s"

text \<open>
  \<open>str.lower()\<close>: exact on the code points below 256 (ASCII and Latin-1: the capital
  letters are U+0041..U+005A and U+00C0..U+00DE without the multiplication sign U+00D7, and
  each maps to the code point 32 above it). Cased letters beyond Latin-1 are outside the
  model and are left as they are.
\<close>

definition lower_cp :: "nat \<Rightarrow> nat" where
  "lower_cp c = (if (65 \<le> c \<and> c \<le> 90) \<or> (192 \<le> c \<and> c \<le> 222 \<and> c \<noteq> 215) then c + 32 else c)"

definition lower :: "pystr \<Rightarrow> pystr" where
  "lower s = map lower_cp s"

text \<open>\<open>s.startswith(t)\<close> and the operator \<open>t in s\<close> on strings.\<close>

fun startswith :: "pystr \<Rightarrow> pystr \<Rightarrow> bool" where
  "startswith s [] = True"
| "startswith [] (d # t) = False"
| "startswith (c # s) (d # t) = (c = d \<and> startswith s t)"

fun py_in :: "pystr \<Rightarrow> pystr \<Rightarrow> bool" where
  "py_in t [] = (t = [])"
| "py_in t (c # s) = (startswith (c # s) t \<or> py_in t s)"

text \<open>
  \<open>s.replace(old, new)\<close>: the occurrences of \<open>old\<close> are replaced from left to right
  without overlap; an empty \<open>old\<close> matches before every character and at the end.
\<close>

function replace_ne :: "pystr \<Rightarrow> pystr \<Rightarrow> pystr \<Rightarrow> pystr" where
  "replace_ne [] old new = []"
| "replace_ne (c # s) old new =
     (if old \<noteq> [] \<and> startswith (c # s) old
      then new @ replace_ne (drop (length old - 1) s) old new
      else c # replace_ne s old new)"
  by pat_completeness auto
termination
  by (relation "measure (\<lambda>(s, old, new). length s)") auto

definition replace :: "pystr \<Rightarrow> pystr \<Rightarrow> pystr \<Rightarrow> pystr" where
  "replace s old new =
     (if old = [] then new @ concat (map (\<lambda>c. c # new) s) else replace_ne s old new)"

text \<open>
  A \<open>float\<close> is a finite number, by its exact value (a rational), or one of the
  infinities, or not a number. The two zeros are one value: both are false as a condition,
  and a value that is false is never formatted. The values a cell or a data dictionary
  holds: \<open>None\<close>, a string, an \<open>int\<close>, a \<open>float\<close> or a list of strings.
\<close>

datatype pyfloat = Finite rat | PosInf | NegInf | NaN

datatype pyval = VNone | VStr pystr | VInt int | VFloat pyfloat | VList "pystr list"

fun truthy :: "pyval \<Rightarrow> bool" where
  "truthy VNone = False"
| "truthy (VStr s) = (s \<noteq> [])"
| "truthy (VInt n) = (n \<noteq> 0)"
| "truthy (VFloat x) = (x \<noteq> Finite 0)"
| "truthy (VList xs) = (xs \<noteq> [])"

datatype py_error = ValueError | KeyError | OverflowError

section \<open>The worksheet (openpyxl)\<close>

text \<open>
  A worksheet stores the cells that exist, keyed by (row, column); a stored cell may be
  empty. \<open>max_row\<close> and \<open>max_column\<close> are computed from the stored keys and are 1 for
  a sheet without cells. \<open>ws.cell(row, column)\<close> raises ValueError below 1 and otherwise
  returns the cell, creating an empty one when none is stored: a read can extend the sheet.
  The upper limits of the file format on row and column numbers are not modelled.
\<close>

type_synonym sheet = "((int \<times> int) \<times> pyval) list"

definition max_row :: "sheet \<Rightarrow> int" where
  "max_row sh = (if sh = [] then 1 else Max (set (map (\<lambda>kv. fst (fst kv)) sh)))"

definition max_column :: "sheet \<Rightarrow> int" where
  "max_column sh = (if sh = [] then 1 else Max (set (map (\<lambda>kv. snd (fst kv)) sh)))"

definition ws_cell :: "sheet \<Rightarrow> int \<Rightarrow> int \<Rightarrow> py_error + (sheet \<times> pyval)" where
  "ws_cell sh row col =
     (if row < 1 \<or> col < 1 then Inl ValueError
      else case map_of sh (row, col) of
             Some v \<Rightarrow> Inr (sh, v)
           | None \<Rightarrow> Inr (sh @ [((row, col), VNone)], VNone))"

section \<open>ExcelReader\<close>

text \<open>
  The reader owns the workbook (the sheets by name, in order). \<open>current_sheet\<close> refers
  to a sheet of the workbook; it is kept as the sheet's name, so that what a read does to
  the selected sheet is done to the workbook's sheet. \<open>sheet_names\<close> is set once from the
  workbook when the reader is built.
\<close>

record excel_reader =
  workbook :: "(pystr \<times> sheet) list"
  current_sheet :: "pystr option"

definition sheet_names :: "excel_reader \<Rightarrow> pystr list" where
  "sheet_names rd = map fst (workbook rd)"

definition select_sheet :: "excel_reader \<Rightarrow> pystr \<Rightarrow> excel_reader \<times> bool" where
  "select_sheet rd sheet_name =
     (if sheet_name \<in> set (sheet_names rd)
      then (rd\<lparr>current_sheet := Some sheet_name\<rparr>, True)
      else (rd, False))"

text \<open>The selected sheet object, and storing it back after a read has extended it.\<close>

definition the_sheet :: "excel_reader \<Rightarrow> sheet option" where
  "the_sheet rd = (case current_sheet rd of None \<Rightarrow> None | Some n \<Rightarrow> map_of (workbook rd) n)"

definition put_sheet :: "excel_reader \<Rightarrow> sheet \<Rightarrow> excel_reader" where
  "put_sheet rd sh =
     (case current_sheet rd of
        None \<Rightarrow> rd
      | Some n \<Rightarrow> rd\<lparr>workbook := AList.update n sh (workbook rd)\<rparr>)"

definition extract_cell_value :: "excel_reader \<Rightarrow> int \<Rightarrow> int \<Rightarrow> excel_reader \<times> pyval" where
  "extract_cell_value rd row col =
     (case the_sheet rd of
        None \<Rightarrow> (rd, VNone)
      | Some sh \<Rightarrow>
          (case ws_cell sh row col of
             Inl e \<Rightarrow> (rd, VNone)
           | Inr (sh', v) \<Rightarrow> (put_sheet rd sh', v)))"

text \<open>
  \<open>find_cell_by_value\<close>: rows \<open>1..max_row\<close> (the bound is read once), and in each row the
  columns \<open>1..max_column\<close> (the bound is read when the row starts). The cell is read with
  \<open>ws.cell\<close> directly, so an error of the sheet is not caught here.
\<close>

definition cell_matches :: "pystr \<Rightarrow> bool \<Rightarrow> pyval \<Rightarrow> bool" where
  "cell_matches search_value partial_match cell_value =
     (truthy cell_value \<and>
      (case cell_value of
         VStr s \<Rightarrow> (if partial_match then py_in (lower search_value) (lower s)
                    else lower search_value = lower s)
       | _ \<Rightarrow> False))"

fun find_in_row :: "pystr \<Rightarrow> bool \<Rightarrow> sheet \<Rightarrow> int \<Rightarrow> int list \<Rightarrow> py_error + (sheet \<times> int option)" where
  "find_in_row sv pm sh row [] = Inr (sh, None)"
| "find_in_row sv pm sh row (col # cols) =
     (case ws_cell sh row col of
        Inl e \<Rightarrow> Inl e
      | Inr (sh', v) \<Rightarrow>
          if cell_matches sv pm v then Inr (sh', Some col)
          else find_in_row sv pm sh' row cols)"

fun find_in_rows :: "pystr \<Rightarrow> bool \<Rightarrow> sheet \<Rightarrow> int list \<Rightarrow> py_error + (sheet \<times> (int \<times> int) option)" where
  "find_in_rows sv pm sh [] = Inr (sh, None)"
| "find_in_rows sv pm sh (row # rows) =
     (case find_in_row sv pm sh row [1 .. max_column sh] of
        Inl e \<Rightarrow> Inl e
      | Inr (sh', Some col) \<Rightarrow> Inr (sh', Some (row, col))
      | Inr (sh', None) \<Rightarrow> find_in_rows sv pm sh' rows)"

definition find_cell_by_value ::
  "excel_reader \<Rightarrow> pystr \<Rightarrow> bool \<Rightarrow> py_error + (excel_reader \<times> (int \<times> int) option)" where
  "find_cell_by_value rd search_value partial_match =
     (case the_sheet rd of
        None \<Rightarrow> Inr (rd, None)
      | Some sh \<Rightarrow>
          (case find_in_rows search_value partial_match sh [1 .. max_row sh] of
             Inl e \<Rightarrow> Inl e
           | Inr (sh', pos) \<Rightarrow> Inr (put_sheet rd sh', pos)))"

text \<open>
  \<open>extract_data_for_proposal\<close>. The dictionary it returns is a map from the field name to
  the value. In both scanning loops the \<open>break\<close> leaves the loop over the columns only;
  the loop over the rows goes on, and a later row assigns the field again.
\<close>

type_synonym data = "string \<rightharpoonup> pyval"

definition initial_data :: data where
  "initial_data =
     [''nome_cliente'' \<mapsto> VStr [], ''nome_contato'' \<mapsto> VStr [], ''email'' \<mapsto> VStr [],
      ''telefone'' \<mapsto> VStr [], ''escopo'' \<mapsto> VStr [], ''prazo'' \<mapsto> VStr [],
      ''custo'' \<mapsto> VNone, ''garantias'' \<mapsto> VStr [], ''seguro'' \<mapsto> VStr [],
      ''nao_inclusos'' \<mapsto> VStr []]"

definition is_client_name :: "pyval \<Rightarrow> bool" where
  "is_client_name v = (truthy v \<and> (case v of VStr s \<Rightarrow> length s > 3 | _ \<Rightarrow> False))"

fun nome_cols :: "excel_reader \<Rightarrow> data \<Rightarrow> int \<Rightarrow> int list \<Rightarrow> excel_reader \<times> data" where
  "nome_cols rd d row [] = (rd, d)"
| "nome_cols rd d row (col # cols) =
     (case extract_cell_value rd row col of
        (rd', cell_value) \<Rightarrow>
          if is_client_name cell_value then (rd', d(''nome_cliente'' \<mapsto> cell_value))
          else nome_cols rd' d row cols)"

fun nome_rows :: "excel_reader \<Rightarrow> data \<Rightarrow> int list \<Rightarrow> excel_reader \<times> data" where
  "nome_rows rd d [] = (rd, d)"
| "nome_rows rd d (row # rows) =
     (case nome_cols rd d row [1 .. 9] of (rd', d') \<Rightarrow> nome_rows rd' d' rows)"

definition is_custo_label :: "pyval \<Rightarrow> bool" where
  "is_custo_label v =
     (truthy v \<and> (case v of VStr s \<Rightarrow> py_in (ustr ''CUSTO FINAL'') s | _ \<Rightarrow> False))"

definition is_custo_value :: "pyval \<Rightarrow> bool" where
  "is_custo_value v =
     (truthy v \<and>
      (case v of
         VInt n \<Rightarrow> n > 1000
       | VFloat (Finite x) \<Rightarrow> x > 1000
       | VFloat PosInf \<Rightarrow> True
       | _ \<Rightarrow> False))"

fun custo_cols :: "excel_reader \<Rightarrow> data \<Rightarrow> int \<Rightarrow> int list \<Rightarrow> excel_reader \<times> data" where
  "custo_cols rd d row [] = (rd, d)"
| "custo_cols rd d row (col # cols) =
     (case extract_cell_value rd row 2 of
        (rd1, cell_label) \<Rightarrow>
          (case extract_cell_value rd1 row col of
             (rd2, cell_value) \<Rightarrow>
               if is_custo_label cell_label \<and> is_custo_value cell_value
               then (rd2, d(''custo'' \<mapsto> cell_value))
               else custo_cols rd2 d row cols))"

definition cur_max_row :: "excel_reader \<Rightarrow> int" where
  "cur_max_row rd = (case the_sheet rd of None \<Rightarrow> 1 | Some sh \<Rightarrow> max_row sh)"

definition cur_max_column :: "excel_reader \<Rightarrow> int" where
  "cur_max_column rd = (case the_sheet rd of None \<Rightarrow> 1 | Some sh \<Rightarrow> max_column sh)"

fun custo_rows :: "excel_reader \<Rightarrow> data \<Rightarrow> int list \<Rightarrow> excel_reader \<times> data" where
  "custo_rows rd d [] = (rd, d)"
| "custo_rows rd d (row # rows) =
     (case custo_cols rd d row [1 .. cur_max_column rd] of (rd', d') \<Rightarrow> custo_rows rd' d' rows)"

definition extract_data_for_proposal :: "excel_reader \<Rightarrow> py_error + (excel_reader \<times> data)" where
  "extract_data_for_proposal rd =
     (if the_sheet rd = None then Inr (rd, Map.empty)
      else
        case nome_rows rd initial_data [1 .. 9] of
          (rd1, d1) \<Rightarrow>
            (case custo_rows rd1 d1 [cur_max_row rd1 - 20 .. cur_max_row rd1] of
               (rd2, d2) \<Rightarrow>
                 (case find_cell_by_value rd2 (ustr ''SEGURO'') True of
                    Inl e \<Rightarrow> Inl e
                  | Inr (rd3, None) \<Rightarrow> Inr (rd3, d2)
                  | Inr (rd3, Some (row, col)) \<Rightarrow>
                      (case extract_cell_value rd3 row col of
                         (rd4, v) \<Rightarrow> Inr (rd4, d2(''seguro'' \<mapsto> v))))))"

section \<open>The sheet as a grid of values\<close>

text \<open>
  The value at a position (an absent cell is empty), the same for the selected sheet of a
  reader (empty below 1 and without a selection), and readers that agree on the names, the
  selection and the values: a read changes a reader within this relation only.
\<close>

definition cellv :: "sheet \<Rightarrow> int \<Rightarrow> int \<Rightarrow> pyval" where
  "cellv sh row col = (case map_of sh (row, col) of None \<Rightarrow> VNone | Some v \<Rightarrow> v)"

definition rcell :: "excel_reader \<Rightarrow> int \<Rightarrow> int \<Rightarrow> pyval" where
  "rcell rd row col =
     (case the_sheet rd of
        None \<Rightarrow> VNone
      | Some sh \<Rightarrow> if row < 1 \<or> col < 1 then VNone else cellv sh row col)"

definition same_cells :: "excel_reader \<Rightarrow> excel_reader \<Rightarrow> bool" where
  "same_cells rd rd' =
     (current_sheet rd' = current_sheet rd \<and> sheet_names rd' = sheet_names rd \<and>
      map_option cellv (the_sheet rd') = map_option cellv (the_sheet rd))"

text \<open>The two scanning loops over a fixed grid of values.\<close>

fun nome_cols_on :: "(int \<Rightarrow> int \<Rightarrow> pyval) \<Rightarrow> data \<Rightarrow> int \<Rightarrow> int list \<Rightarrow> data" where
  "nome_cols_on f d row [] = d"
| "nome_cols_on f d row (col # cols) =
     (if is_client_name (f row col) then d(''nome_cliente'' \<mapsto> f row col)
      else nome_cols_on f d row cols)"

fun nome_rows_on :: "(int \<Rightarrow> int \<Rightarrow> pyval) \<Rightarrow> data \<Rightarrow> int list \<Rightarrow> data" where
  "nome_rows_on f d [] = d"
| "nome_rows_on f d (row # rows) = nome_rows_on f (nome_cols_on f d row [1 .. 9]) rows"

text \<open>
  A position is the first match of a search when its cell matches and no cell before it in
  row-major order (rows from 1, in a row the columns from 1) does.
\<close>

definition first_match :: "pystr \<Rightarrow> bool \<Rightarrow> sheet \<Rightarrow> int \<Rightarrow> int \<Rightarrow> bool" where
  "first_match sv pm sh row col =
     (1 \<le> row \<and> 1 \<le> col \<and> cell_matches sv pm (cellv sh row col) \<and>
      (\<forall>r c. 1 \<le> r \<and> 1 \<le> c \<and> (r < row \<or> (r = row \<and> c < col))
          \<longrightarrow> \<not> cell_matches sv pm (cellv sh r c)))"

text \<open>The value of one field in the dictionary an extraction returns, and example readers.\<close>

definition extracted_field :: "excel_reader \<Rightarrow> string \<Rightarrow> pyval option" where
  "extracted_field rd k =
     (case extract_data_for_proposal rd of Inl e \<Rightarrow> None | Inr (rd', d) \<Rightarrow> d k)"

definition incluido :: pystr where
  "incluido = ustr ''Inclu'' @ [237] @ ustr ''do''"

definition example_sheet :: sheet where
  "example_sheet =
     [((2, 3), VStr (ustr ''Acme Corp'')), ((40, 2), VStr (ustr ''SEGURO'')),
      ((40, 3), VStr incluido)]"

definition example_reader :: excel_reader where
  "example_reader = \<lparr>workbook = [(ustr ''Plan1'', example_sheet)], current_sheet = Some (ustr ''Plan1'')\<rparr>"

definition two_names_sheet :: sheet where
  "two_names_sheet = [((1, 1), VStr (ustr ''Acme Corp'')), ((2, 1), VStr (ustr ''Obra Nova''))]"

definition two_names_reader :: excel_reader where
  "two_names_reader = \<lparr>workbook = [(ustr ''Plan1'', two_names_sheet)], current_sheet = Some (ustr ''Plan1'')\<rparr>"

definition blank_reader :: excel_reader where
  "blank_reader = \<lparr>workbook = [(ustr ''Plan1'', [((3, 2), VNone)])], current_sheet = Some (ustr ''Plan1'')\<rparr>"

definition text_fields :: "string list" where
  "text_fields =
     [''nome_cliente'', ''nome_contato'', ''email'', ''telefone'', ''escopo'', ''prazo'',
      ''garantias'', ''seguro'', ''nao_inclusos'']"

section \<open>The document (python-docx)\<close>

text \<open>
  A paragraph has a paragraph style (by name, \<open>None\<close> for the default) and a sequence of
  runs; a run has its text and its character formatting. The text of a paragraph is the
  texts of its runs in order. The body of a document is a sequence of paragraphs and tables;
  a table is rows of cells and a cell is a sequence of paragraphs. \<open>doc_styles\<close> are the
  names of the styles the document defines. Tables nested in a cell, which the source does
  not visit, and merged cells, which a row lists more than once, are outside the model.
\<close>

record text_run =
  run_text :: pystr
  run_format :: "string list"

record para =
  para_style :: "pystr option"
  para_runs :: "text_run list"

datatype block = Para para | Table "para list list list"

record document =
  doc_body :: "block list"
  doc_styles :: "pystr list"

definition para_text :: "para \<Rightarrow> pystr" where
  "para_text p = concat (map run_text (para_runs p))"

text \<open>
  Assigning \<open>run.text\<close> empties the run and appends the text piece by piece: a tab
  (U+0009) becomes a tab element, a line feed or a carriage return becomes a break, which
  reads back as a line feed, and the characters between them become one text element. A text
  element with a character XML does not allow (a control character below U+0020, U+FFFE,
  U+FFFF, a surrogate) raises ValueError; the pieces appended before it stay in the run.
  \<open>run_content\<close> takes the characters buffered for the next text element and the rest of
  the text, and returns the content of the run as it reads back.
\<close>

definition xml_char :: "nat \<Rightarrow> bool" where
  "xml_char c = (32 \<le> c \<and> c \<noteq> 65534 \<and> c \<noteq> 65535 \<and> \<not> (55296 \<le> c \<and> c \<le> 57343))"

fun run_content :: "pystr \<Rightarrow> pystr \<Rightarrow> pystr \<times> py_error option" where
  "run_content bfr [] = (if list_all xml_char bfr then (bfr, None) else ([], Some ValueError))"
| "run_content bfr (c # cs) =
     (if c = 9 \<or> c = 10 \<or> c = 13
      then (if list_all xml_char bfr
            then (case run_content [] cs of
                    (rest, e) \<Rightarrow> (bfr @ (if c = 9 then 9 else 10) # rest, e))
            else ([], Some ValueError))
      else run_content (bfr @ [c]) cs)"

definition set_run_text :: "text_run \<Rightarrow> pystr \<Rightarrow> text_run \<times> py_error option" where
  "set_run_text r s = (case run_content [] s of (t, e) \<Rightarrow> (r\<lparr>run_text := t\<rparr>, e))"

text \<open>
  Assigning \<open>paragraph.text\<close> removes every run, adds one new run without formatting and
  assigns the text to it: when that raises, the paragraph is left with what the run
  received.
\<close>

definition set_para_text :: "para \<Rightarrow> pystr \<Rightarrow> para \<times> py_error option" where
  "set_para_text p s =
     (case set_run_text \<lparr>run_text = [], run_format = []\<rparr> s of
        (r, e) \<Rightarrow> (p\<lparr>para_runs := [r]\<rparr>, e))"

text \<open>\<open>document.paragraphs\<close>: the paragraphs of the body itself, not those of the tables.\<close>

fun paragraphs :: "block list \<Rightarrow> para list" where
  "paragraphs [] = []"
| "paragraphs (Para p # bs) = p # paragraphs bs"
| "paragraphs (Table t # bs) = paragraphs bs"

section \<open>WordWriter\<close>

fun find_from :: "pystr \<Rightarrow> bool \<Rightarrow> nat \<Rightarrow> para list \<Rightarrow> nat option" where
  "find_from search_text partial_match i [] = None"
| "find_from search_text partial_match i (para # ps) =
     (if partial_match \<and> py_in (lower search_text) (lower (para_text para)) then Some i
      else if \<not> partial_match \<and> lower search_text = lower (para_text para) then Some i
      else find_from search_text partial_match (Suc i) ps)"

definition find_paragraph_by_text :: "document \<Rightarrow> pystr \<Rightarrow> bool \<Rightarrow> nat option" where
  "find_paragraph_by_text doc search_text partial_match =
     find_from search_text partial_match 0 (paragraphs (doc_body doc))"

text \<open>
  \<open>replace_text_in_paragraph\<close>: with runs, every run is emptied and the first run
  receives the new text; without runs the text of the paragraph is assigned. An error of
  the assignment is not caught.
\<close>

definition rewrite_runs :: "pystr \<Rightarrow> para \<Rightarrow> para \<times> py_error option" where
  "rewrite_runs new_text p =
     (case para_runs p of
        [] \<Rightarrow> set_para_text p new_text
      | r # rs \<Rightarrow>
          (case set_run_text r new_text of
             (r', e) \<Rightarrow> (p\<lparr>para_runs := r' # map (\<lambda>x. x\<lparr>run_text := []\<rparr>) rs\<rparr>, e)))"

fun update_paragraph ::
  "nat \<Rightarrow> (para \<Rightarrow> para \<times> py_error option) \<Rightarrow> block list \<Rightarrow> block list \<times> py_error option" where
  "update_paragraph i f [] = ([], None)"
| "update_paragraph i f (Table t # bs) =
     (case update_paragraph i f bs of (bs', e) \<Rightarrow> (Table t # bs', e))"
| "update_paragraph i f (Para p # bs) =
     (case i of
        0 \<Rightarrow> (case f p of (p', e) \<Rightarrow> (Para p' # bs, e))
      | Suc j \<Rightarrow> (case update_paragraph j f bs of (bs', e) \<Rightarrow> (Para p # bs', e)))"

definition replace_text_in_paragraph ::
  "document \<Rightarrow> int \<Rightarrow> pystr \<Rightarrow> document \<times> (py_error + bool)" where
  "replace_text_in_paragraph doc paragraph_index new_text =
     (if 0 \<le> paragraph_index \<and> paragraph_index < int (length (paragraphs (doc_body doc)))
      then (case update_paragraph (nat paragraph_index) (rewrite_runs new_text) (doc_body doc) of
              (b, None) \<Rightarrow> (doc\<lparr>doc_body := b\<rparr>, Inr True)
            | (b, Some e) \<Rightarrow> (doc\<lparr>doc_body := b\<rparr>, Inl e))
      else (doc, Inr False))"

text \<open>
  \<open>replace_text_in_document\<close>. One paragraph: the test compares in lower case, the
  replacement \<open>str.replace\<close> does not, and the paragraph counts whenever the test holds.
  The loops: first the paragraphs of the body, then the tables in order, their rows, the
  cells of a row and the paragraphs of a cell. \<open>count_map\<close> is a loop that rewrites the
  elements of a list and adds up what each step counted; an error ends it, with the elements
  after the failing one as they were. The function does not catch the error.
\<close>

definition replace_in_para :: "pystr \<Rightarrow> pystr \<Rightarrow> bool \<Rightarrow> para \<Rightarrow> para \<times> (py_error + nat)" where
  "replace_in_para old_text new_text partial_match para =
     (if partial_match \<and> py_in (lower old_text) (lower (para_text para))
      then (case set_para_text para (replace (para_text para) old_text new_text) of
              (p', None) \<Rightarrow> (p', Inr 1)
            | (p', Some e) \<Rightarrow> (p', Inl e))
      else if \<not> partial_match \<and> lower old_text = lower (para_text para)
      then (case set_para_text para new_text of
              (p', None) \<Rightarrow> (p', Inr 1)
            | (p', Some e) \<Rightarrow> (p', Inl e))
      else (para, Inr 0))"

fun count_map :: "('a \<Rightarrow> 'a \<times> (py_error + nat)) \<Rightarrow> 'a list \<Rightarrow> 'a list \<times> (py_error + nat)" where
  "count_map f [] = ([], Inr 0)"
| "count_map f (x # xs) =
     (case f x of
        (x', Inl e) \<Rightarrow> (x' # xs, Inl e)
      | (x', Inr n) \<Rightarrow>
          (case count_map f xs of
             (xs', Inl e) \<Rightarrow> (x' # xs', Inl e)
           | (xs', Inr m) \<Rightarrow> (x' # xs', Inr (n + m))))"

definition body_step :: "(para \<Rightarrow> para \<times> (py_error + nat)) \<Rightarrow> block \<Rightarrow> block \<times> (py_error + nat)" where
  "body_step f b =
     (case b of Para p \<Rightarrow> (case f p of (p', r) \<Rightarrow> (Para p', r)) | Table t \<Rightarrow> (Table t, Inr 0))"

definition table_step :: "(para \<Rightarrow> para \<times> (py_error + nat)) \<Rightarrow> block \<Rightarrow> block \<times> (py_error + nat)" where
  "table_step f b =
     (case b of
        Para p \<Rightarrow> (Para p, Inr 0)
      | Table t \<Rightarrow> (case count_map (count_map (count_map f)) t of (t', r) \<Rightarrow> (Table t', r)))"

definition replace_text_in_document ::
  "document \<Rightarrow> pystr \<Rightarrow> pystr \<Rightarrow> bool \<Rightarrow> document \<times> (py_error + nat)" where
  "replace_text_in_document doc old_text new_text partial_match =
     (case count_map (body_step (replace_in_para old_text new_text partial_match)) (doc_body doc) of
        (b1, Inl e) \<Rightarrow> (doc\<lparr>doc_body := b1\<rparr>, Inl e)
      | (b1, Inr n1) \<Rightarrow>
          (case count_map (table_step (replace_in_para old_text new_text partial_match)) b1 of
             (b2, Inl e) \<Rightarrow> (doc\<lparr>doc_body := b2\<rparr>, Inl e)
           | (b2, Inr n2) \<Rightarrow> (doc\<lparr>doc_body := b2\<rparr>, Inr (n1 + n2))))"

definition find_and_replace_placeholder ::
  "document \<Rightarrow> pystr \<Rightarrow> pystr \<Rightarrow> document \<times> (py_error + nat)" where
  "find_and_replace_placeholder doc placeholder new_text =
     replace_text_in_document doc placeholder new_text True"

section \<open>Formatting a value\<close>





function decimal :: "nat \<Rightarrow> pystr" where
  "decimal n = (if n < 10 then [48 + n] else decimal (n div 10) @ [48 + n mod 10])"
  by pat_completeness auto
termination
  by (relation "measure (\<lambda>n. n)") auto











section \<open>Filling the proposal\<close>






section \<open>Adding a section\<close>

text \<open>
  \<open>document.add_paragraph(text, style)\<close> appends a paragraph at the end of the body, with
  one run when the text is not empty, and then assigns the style: a name the document does
  not define raises KeyError, after the paragraph has been appended.
  \<open>add_heading(text, level=2)\<close> is \<open>add_paragraph\<close> with the style \<open>Heading 2\<close>.
\<close>

definition add_paragraph :: "document \<Rightarrow> pystr \<Rightarrow> pystr \<Rightarrow> document \<times> py_error option" where
  "add_paragraph doc txt style =
     (case (if txt = [] then ([], None)
            else (case set_run_text \<lparr>run_text = [], run_format = []\<rparr> txt of (r, e) \<Rightarrow> ([r], e))) of
        (rs, Some e) \<Rightarrow>
          (doc\<lparr>doc_body := doc_body doc @ [Para \<lparr>para_style = None, para_runs = rs\<rparr>]\<rparr>, Some e)
      | (rs, None) \<Rightarrow>
          if style \<in> set (doc_styles doc)
          then (doc\<lparr>doc_body := doc_body doc @ [Para \<lparr>para_style = Some style, para_runs = rs\<rparr>]\<rparr>,
                None)
          else (doc\<lparr>doc_body := doc_body doc @ [Para \<lparr>para_style = None, para_runs = rs\<rparr>]\<rparr>,
                Some KeyError))"

definition add_section_if_not_exists :: "document \<Rightarrow> pystr \<Rightarrow> pystr \<Rightarrow> document \<times> bool" where
  "add_section_if_not_exists doc section_title content =
     (case find_paragraph_by_text doc section_title True of
        Some section_index \<Rightarrow>
          (case add_paragraph doc content (ustr ''Normal'') of
             (doc', None) \<Rightarrow> (doc', True)
           | (doc', Some e) \<Rightarrow> (doc', False))
      | None \<Rightarrow>
          (case add_paragraph doc section_title (ustr ''Heading 2'') of
             (doc1, Some e) \<Rightarrow> (doc1, False)
           | (doc1, None) \<Rightarrow>
               (case add_paragraph doc1 content (ustr ''Normal'') of
                  (doc2, None) \<Rightarrow> (doc2, True)
                | (doc2, Some e) \<Rightarrow> (doc2, False))))"

section \<open>The rendering the specification describes\<close>






section \<open>Paragraphs of a document and the fields they mention\<close>

text \<open>
  Every paragraph the replacement visits: those of the body and those of the table cells.
  A paragraph mentions a filled field when its text contains (in lower case) one of the
  placeholders of a field that has a non-empty value in the data. \<open>read_back\<close> is a text
  as it reads back from a run: a carriage return has become a line feed.
\<close>

fun block_paragraphs :: "block \<Rightarrow> para list" where
  "block_paragraphs (Para p) = [p]"
| "block_paragraphs (Table t) = concat (concat t)"

definition all_paragraphs :: "block list \<Rightarrow> para list" where
  "all_paragraphs bs = concat (map block_paragraphs bs)"



definition read_back :: "pystr \<Rightarrow> pystr" where
  "read_back s = map (\<lambda>c. if c = 13 then 10 else c) s"

text \<open>
  The number of occurrences of a text in another, one for every position where it begins.
  The placeholders of the fields without a non-empty value; a paragraph keeps them when
  each of them occurs in its text at least as often as before.
\<close>

fun occurrences :: "pystr \<Rightarrow> pystr \<Rightarrow> nat" where
  "occurrences t [] = (if t = [] then 1 else 0)"
| "occurrences t (c # s) = (if startswith (c # s) t then 1 else 0) + occurrences t s"





text \<open>
  The result of a loop is accepted when it is a count or, unless \<open>strict\<close>, an error: a
  property of the loops is stated for the accepted results.
\<close>

definition accept :: "bool \<Rightarrow> py_error + nat \<Rightarrow> bool" where
  "accept strict r = (case r of Inl e \<Rightarrow> \<not> strict | Inr n \<Rightarrow> True)"

section \<open>Example documents\<close>

definition plain :: "string \<Rightarrow> para" where
  "plain s = \<lparr>para_style = None, para_runs = [\<lparr>run_text = ustr s, run_format = []\<rparr>]\<rparr>"

definition one_paragraph :: "string \<Rightarrow> document" where
  "one_paragraph s = \<lparr>doc_body = [Para (plain s)], doc_styles = [ustr ''Normal'']\<rparr>"

definition two_runs_doc :: document where
  "two_runs_doc =
     \<lparr>doc_body =
        [Para \<lparr>para_style = None,
               para_runs = [\<lparr>run_text = ustr ''{{CLIENTE}}'', run_format = [''bold'']\<rparr>,
                            \<lparr>run_text = ustr '' Ltda'', run_format = [''italic'']\<rparr>]\<rparr>],
      doc_styles = [ustr ''Normal'']\<rparr>"

definition lower_case_doc :: document where
  "lower_case_doc = \<lparr>doc_body = [Para (plain ''{{cliente}}'')], doc_styles = [ustr ''Normal'']\<rparr>"

definition sections_doc :: document where
  "sections_doc =
     \<lparr>doc_body = [Para (plain ''Escopo''), Para (plain ''Prazo'')],
      doc_styles = [ustr ''Normal'', ustr ''Heading 2'']\<rparr>"










section \<open>Reads do not change the values of a sheet\<close>

lemma select_sheet_unknown:
  "sheet_name \<notin> set (sheet_names rd) \<Longrightarrow> select_sheet rd sheet_name = (rd, False)"
  by (simp add: select_sheet_def)

lemma cellv_append_empty:
  "map_of sh (row, col) = None \<Longrightarrow> cellv (sh @ [((row, col), VNone)]) = cellv sh"
  by (auto simp: cellv_def fun_eq_iff map_add_def split: option.splits)

lemma ws_cell_ok:
  assumes "1 \<le> row" "1 \<le> col"
  shows "\<exists>sh'. ws_cell sh row col = Inr (sh', cellv sh row col) \<and> cellv sh' = cellv sh"
proof (cases "map_of sh (row, col)")
  case None
  with assms show ?thesis
    by (simp add: ws_cell_def cellv_append_empty) (simp add: cellv_def)
next
  case (Some v)
  with assms show ?thesis
    by (simp add: ws_cell_def cellv_def)
qed

lemma ws_cell_error: "row < 1 \<or> col < 1 \<Longrightarrow> ws_cell sh row col = Inl ValueError"
  by (simp add: ws_cell_def)

lemma the_sheet_put:
  "the_sheet rd = Some sh \<Longrightarrow> the_sheet (put_sheet rd sh') = Some sh'"
  by (auto simp: the_sheet_def put_sheet_def update_conv' split: option.splits)

lemma same_cells_refl: "same_cells rd rd"
  by (simp add: same_cells_def)

lemma same_cells_trans: "same_cells a b \<Longrightarrow> same_cells b c \<Longrightarrow> same_cells a c"
  by (simp add: same_cells_def)

lemma same_cells_put:
  assumes "the_sheet rd = Some sh" "cellv sh' = cellv sh"
  shows "same_cells rd (put_sheet rd sh')"
proof -
  obtain n where n: "current_sheet rd = Some n" "map_of (workbook rd) n = Some sh"
    using assms(1) by (auto simp: the_sheet_def split: option.splits)
  then have "n \<in> set (map fst (workbook rd))"
    by (metis map_of_eq_None_iff option.distinct(1) set_map)
  then have "sheet_names (put_sheet rd sh') = sheet_names rd"
    using n by (simp add: put_sheet_def sheet_names_def update_keys)
  moreover have "current_sheet (put_sheet rd sh') = current_sheet rd"
    using n by (simp add: put_sheet_def)
  ultimately show ?thesis
    using assms the_sheet_put[OF assms(1), of sh'] by (simp add: same_cells_def)
qed

lemma same_cells_rcell: "same_cells rd rd' \<Longrightarrow> rcell rd' = rcell rd"
  by (auto simp: same_cells_def rcell_def fun_eq_iff split: option.splits)

lemma same_cells_selected: "same_cells rd rd' \<Longrightarrow> the_sheet rd' = None \<longleftrightarrow> the_sheet rd = None"
  by (auto simp: same_cells_def)

lemma extract_cell_value_eq:
  "\<exists>rd'. extract_cell_value rd row col = (rd', rcell rd row col) \<and> same_cells rd rd'"
proof (cases "the_sheet rd")
  case None
  then show ?thesis
    by (simp add: extract_cell_value_def rcell_def same_cells_refl)
next
  case (Some sh)
  show ?thesis
  proof (cases "row < 1 \<or> col < 1")
    case True
    with Some show ?thesis
      by (simp add: extract_cell_value_def rcell_def ws_cell_error same_cells_refl)
  next
    case False
    then obtain sh' where "ws_cell sh row col = Inr (sh', cellv sh row col)" "cellv sh' = cellv sh"
      using ws_cell_ok[of row col sh] by auto
    with Some False show ?thesis
      by (simp add: extract_cell_value_def rcell_def same_cells_put)
  qed
qed

lemma nome_cols_eq:
  "\<exists>rd'. nome_cols rd d row cols = (rd', nome_cols_on (rcell rd) d row cols) \<and> same_cells rd rd'"
proof (induction cols arbitrary: rd)
  case Nil
  show ?case by (simp add: same_cells_refl)
next
  case (Cons col cols)
  obtain rd1 where r1: "extract_cell_value rd row col = (rd1, rcell rd row col)" "same_cells rd rd1"
    using extract_cell_value_eq by blast
  obtain rd2 where r2: "nome_cols rd1 d row cols = (rd2, nome_cols_on (rcell rd1) d row cols)"
      "same_cells rd1 rd2"
    using Cons.IH by blast
  show ?case
    using r1 r2 same_cells_rcell[OF r1(2)] same_cells_trans[OF r1(2) r2(2)]
    by (auto simp: fun_upd_def)
qed

lemma nome_rows_eq:
  "\<exists>rd'. nome_rows rd d rows = (rd', nome_rows_on (rcell rd) d rows) \<and> same_cells rd rd'"
proof (induction rows arbitrary: rd d)
  case Nil
  show ?case by (simp add: same_cells_refl)
next
  case (Cons row rows)
  obtain rd1 where r1: "nome_cols rd d row [1 .. 9] = (rd1, nome_cols_on (rcell rd) d row [1 .. 9])"
      "same_cells rd rd1"
    using nome_cols_eq by blast
  obtain rd2 where r2: "nome_rows rd1 (nome_cols_on (rcell rd) d row [1 .. 9]) rows
        = (rd2, nome_rows_on (rcell rd1) (nome_cols_on (rcell rd) d row [1 .. 9]) rows)"
      "same_cells rd1 rd2"
    using Cons.IH by blast
  show ?case
    using r1 r2 same_cells_rcell[OF r1(2)] same_cells_trans[OF r1(2) r2(2)] by simp
qed

lemma custo_cols_frame:
  "\<exists>rd' d'. custo_cols rd d row cols = (rd', d') \<and> same_cells rd rd' \<and>
     (\<forall>k. k \<noteq> ''custo'' \<longrightarrow> d' k = d k) \<and>
     ((\<forall>c. \<not> is_custo_value (rcell rd row c)) \<longrightarrow> d' = d)"
proof (induction cols arbitrary: rd)
  case Nil
  show ?case by (simp add: same_cells_refl)
next
  case (Cons col cols)
  obtain rd1 where r1: "extract_cell_value rd row 2 = (rd1, rcell rd row 2)" "same_cells rd rd1"
    using extract_cell_value_eq by blast
  obtain rd2 where r2: "extract_cell_value rd1 row col = (rd2, rcell rd1 row col)" "same_cells rd1 rd2"
    using extract_cell_value_eq by blast
  have s2: "same_cells rd rd2" using r1(2) r2(2) by (rule same_cells_trans)
  obtain rd3 d3 where r3: "custo_cols rd2 d row cols = (rd3, d3)" "same_cells rd2 rd3"
      "\<forall>k. k \<noteq> ''custo'' \<longrightarrow> d3 k = d k"
      "(\<forall>c. \<not> is_custo_value (rcell rd2 row c)) \<longrightarrow> d3 = d"
    using Cons.IH by blast
  show ?case
    using r1 r2 r3 same_cells_rcell[OF r1(2)] same_cells_rcell[OF s2] same_cells_trans[OF s2 r3(2)] s2
    by auto
qed

lemma custo_rows_frame:
  "\<exists>rd' d'. custo_rows rd d rows = (rd', d') \<and> same_cells rd rd' \<and>
     (\<forall>k. k \<noteq> ''custo'' \<longrightarrow> d' k = d k) \<and>
     ((\<forall>r c. \<not> is_custo_value (rcell rd r c)) \<longrightarrow> d' = d)"
proof (induction rows arbitrary: rd d)
  case Nil
  show ?case by (simp add: same_cells_refl)
next
  case (Cons row rows)
  obtain rd1 d1 where r1: "custo_cols rd d row [1 .. cur_max_column rd] = (rd1, d1)"
      "same_cells rd rd1" "\<forall>k. k \<noteq> ''custo'' \<longrightarrow> d1 k = d k"
      "(\<forall>c. \<not> is_custo_value (rcell rd row c)) \<longrightarrow> d1 = d"
    using custo_cols_frame by blast
  obtain rd2 d2 where r2: "custo_rows rd1 d1 rows = (rd2, d2)" "same_cells rd1 rd2"
      "\<forall>k. k \<noteq> ''custo'' \<longrightarrow> d2 k = d1 k"
      "(\<forall>r c. \<not> is_custo_value (rcell rd1 r c)) \<longrightarrow> d2 = d1"
    using Cons.IH by blast
  show ?case
    using r1 r2 same_cells_rcell[OF r1(2)] same_cells_trans[OF r1(2) r2(2)] by auto
qed

lemma cell_matches_not_None: "cell_matches sv pm v \<Longrightarrow> v \<noteq> VNone"
  by (auto simp: cell_matches_def)

lemma stored_bounds:
  assumes "cellv sh row col \<noteq> VNone"
  shows "row \<le> max_row sh \<and> col \<le> max_column sh"
proof -
  obtain v where "map_of sh (row, col) = Some v"
    using assms by (auto simp: cellv_def split: option.splits)
  then have mem: "((row, col), v) \<in> set sh"
    by (rule map_of_SomeD)
  then have "row \<in> set (map (\<lambda>kv. fst (fst kv)) sh)" "col \<in> set (map (\<lambda>kv. snd (fst kv)) sh)"
    by force+
  moreover have "sh \<noteq> []" using mem by auto
  ultimately show ?thesis
    by (simp add: max_row_def max_column_def)
qed

lemma find_in_row_eq:
  assumes "1 \<le> row" "\<forall>c \<in> set cols. 1 \<le> c"
  shows "\<exists>sh'. find_in_row sv pm sh row cols
            = Inr (sh', List.find (\<lambda>c. cell_matches sv pm (cellv sh row c)) cols) \<and>
          cellv sh' = cellv sh"
  using assms(2)
proof (induction cols arbitrary: sh)
  case Nil
  show ?case by simp
next
  case (Cons col cols)
  then have "1 \<le> col" by simp
  then obtain sh1 where s1: "ws_cell sh row col = Inr (sh1, cellv sh row col)" "cellv sh1 = cellv sh"
    using ws_cell_ok[OF assms(1), of col sh] by auto
  obtain sh2 where s2: "find_in_row sv pm sh1 row cols
        = Inr (sh2, List.find (\<lambda>c. cell_matches sv pm (cellv sh1 row c)) cols)"
      "cellv sh2 = cellv sh1"
    using Cons by fastforce
  show ?case using s1 s2 by simp
qed

lemma find_upto_None:
  "List.find P [a .. b] = None \<Longrightarrow> a \<le> c \<Longrightarrow> c \<le> b \<Longrightarrow> \<not> P c"
  by (auto simp: find_None_iff)

lemma find_upto_Some:
  assumes "List.find P [a .. b] = Some c"
  shows "a \<le> c \<and> c \<le> b \<and> P c \<and> (\<forall>c'. a \<le> c' \<and> c' < c \<longrightarrow> \<not> P c')"
proof -
  obtain i where i: "i < length [a .. b]" "P ([a .. b] ! i)" "c = [a .. b] ! i"
      "\<forall>j<i. \<not> P ([a .. b] ! j)"
    using assms by (auto simp: find_Some_iff)
  have ci: "c = a + int i" using i(1,3) by simp
  have "\<not> P c'" if "a \<le> c'" "c' < c" for c'
  proof -
    have "nat (c' - a) < i" using that ci by simp
    moreover have "[a .. b] ! nat (c' - a) = c'" using that ci i(1) by simp
    ultimately show ?thesis using i(4) by metis
  qed
  then show ?thesis using i ci by auto
qed

lemma find_in_rows_eq:
  "1 \<le> a \<Longrightarrow>
   \<exists>sh' res. find_in_rows sv pm sh [a .. b] = Inr (sh', res) \<and> cellv sh' = cellv sh \<and>
     (res = None \<longrightarrow> (\<forall>r c. a \<le> r \<and> r \<le> b \<and> 1 \<le> c \<longrightarrow> \<not> cell_matches sv pm (cellv sh r c))) \<and>
     (\<forall>r c. res = Some (r, c) \<longrightarrow>
        a \<le> r \<and> r \<le> b \<and> 1 \<le> c \<and> cell_matches sv pm (cellv sh r c) \<and>
        (\<forall>c'. 1 \<le> c' \<and> c' < c \<longrightarrow> \<not> cell_matches sv pm (cellv sh r c')) \<and>
        (\<forall>r' c'. a \<le> r' \<and> r' < r \<and> 1 \<le> c' \<longrightarrow> \<not> cell_matches sv pm (cellv sh r' c')))"
proof (induction a b arbitrary: sh rule: upto.induct)
  case (1 i j)
  show ?case
  proof (cases "i \<le> j")
    case False
    then show ?thesis by auto
  next
    case True
    then have rows: "[i .. j] = i # [i + 1 .. j]" by (rule upto_rec1)
    let ?P = "\<lambda>c. cell_matches sv pm (cellv sh i c)"
    obtain sh1 where s1: "find_in_row sv pm sh i [1 .. max_column sh]
          = Inr (sh1, List.find ?P [1 .. max_column sh])" "cellv sh1 = cellv sh"
      using find_in_row_eq[of i "[1 .. max_column sh]" sv pm sh] "1.prems" by auto
    show ?thesis
    proof (cases "List.find ?P [1 .. max_column sh]")
      case (Some c)
      have "1 \<le> c \<and> c \<le> max_column sh \<and> ?P c \<and> (\<forall>c'. 1 \<le> c' \<and> c' < c \<longrightarrow> \<not> ?P c')"
        using find_upto_Some[OF Some] .
      then show ?thesis using s1 Some rows True by auto
    next
      case None
      have none: "\<not> ?P c" if "1 \<le> c" for c
      proof (cases "c \<le> max_column sh")
        case True
        then show ?thesis using find_upto_None[OF None that] by simp
      next
        case False
        then have "cellv sh i c = VNone" using stored_bounds[of sh i c] by auto
        then show ?thesis using cell_matches_not_None by metis
      qed
      obtain sh2 res where s2: "find_in_rows sv pm sh1 [i + 1 .. j] = Inr (sh2, res)"
          "cellv sh2 = cellv sh1"
          "res = None \<longrightarrow> (\<forall>r c. i + 1 \<le> r \<and> r \<le> j \<and> 1 \<le> c \<longrightarrow> \<not> cell_matches sv pm (cellv sh1 r c))"
          "\<forall>r c. res = Some (r, c) \<longrightarrow>
             i + 1 \<le> r \<and> r \<le> j \<and> 1 \<le> c \<and> cell_matches sv pm (cellv sh1 r c) \<and>
             (\<forall>c'. 1 \<le> c' \<and> c' < c \<longrightarrow> \<not> cell_matches sv pm (cellv sh1 r c')) \<and>
             (\<forall>r' c'. i + 1 \<le> r' \<and> r' < r \<and> 1 \<le> c' \<longrightarrow> \<not> cell_matches sv pm (cellv sh1 r' c'))"
        using "1.IH"[OF True, of sh1] "1.prems" by auto
      have eq: "find_in_rows sv pm sh [i .. j] = Inr (sh2, res)"
        using rows s1 None s2(1) by simp
      have low: "\<not> cell_matches sv pm (cellv sh r c)" if "i \<le> r" "r < i + 1" "1 \<le> c" for r c
        using that none[of c] by (cases "r = i") auto
      have a1: "res = None \<longrightarrow> (\<forall>r c. i \<le> r \<and> r \<le> j \<and> 1 \<le> c \<longrightarrow> \<not> cell_matches sv pm (cellv sh r c))"
        using s2(3) s1(2) low by (metis not_less)
      have a2: "\<forall>r c. res = Some (r, c) \<longrightarrow>
             i \<le> r \<and> r \<le> j \<and> 1 \<le> c \<and> cell_matches sv pm (cellv sh r c) \<and>
             (\<forall>c'. 1 \<le> c' \<and> c' < c \<longrightarrow> \<not> cell_matches sv pm (cellv sh r c')) \<and>
             (\<forall>r' c'. i \<le> r' \<and> r' < r \<and> 1 \<le> c' \<longrightarrow> \<not> cell_matches sv pm (cellv sh r' c'))"
      proof (intro allI impI)
        fix r c assume "res = Some (r, c)"
        then have h: "i + 1 \<le> r" "r \<le> j" "1 \<le> c" "cell_matches sv pm (cellv sh r c)"
          "\<forall>c'. 1 \<le> c' \<and> c' < c \<longrightarrow> \<not> cell_matches sv pm (cellv sh r c')"
          "\<forall>r' c'. i + 1 \<le> r' \<and> r' < r \<and> 1 \<le> c' \<longrightarrow> \<not> cell_matches sv pm (cellv sh r' c')"
          using s2(4) s1(2) by auto
        have "\<not> cell_matches sv pm (cellv sh r' c')" if "i \<le> r'" "r' < r" "1 \<le> c'" for r' c'
          using that h(6) low[of r' c'] by (cases "r' < i + 1") auto
        then show "i \<le> r \<and> r \<le> j \<and> 1 \<le> c \<and> cell_matches sv pm (cellv sh r c) \<and>
             (\<forall>c'. 1 \<le> c' \<and> c' < c \<longrightarrow> \<not> cell_matches sv pm (cellv sh r c')) \<and>
             (\<forall>r' c'. i \<le> r' \<and> r' < r \<and> 1 \<le> c' \<longrightarrow> \<not> cell_matches sv pm (cellv sh r' c'))"
          using h by auto
      qed
      show ?thesis using eq s2(2) s1(2) a1 a2 by auto
    qed
  qed
qed

lemma first_match_unique:
  assumes "first_match sv pm sh r c" "first_match sv pm sh r' c'"
  shows "r' = r \<and> c' = c"
proof -
  have "\<not> (r < r' \<or> (r = r' \<and> c < c'))" "\<not> (r' < r \<or> (r' = r \<and> c' < c))"
    using assms unfolding first_match_def by blast+
  then show ?thesis by auto
qed

lemma same_cells_sheet:
  "same_cells rd rd' \<Longrightarrow> the_sheet rd = Some sh \<Longrightarrow> \<exists>sh'. the_sheet rd' = Some sh' \<and> cellv sh' = cellv sh"
  by (auto simp: same_cells_def)

lemma rcell_selected:
  "the_sheet rd = Some sh \<Longrightarrow> 1 \<le> row \<Longrightarrow> 1 \<le> col \<Longrightarrow> rcell rd row col = cellv sh row col"
  by (simp add: rcell_def)

lemma find_cell_by_value_eq:
  assumes "the_sheet rd = Some sh"
  shows "\<exists>rd' res. find_cell_by_value rd sv pm = Inr (rd', res) \<and> same_cells rd rd' \<and>
     (res = None \<longrightarrow> (\<forall>(r::int) (c::int). 1 \<le> r \<and> 1 \<le> c \<longrightarrow> \<not> cell_matches sv pm (cellv sh r c))) \<and>
     (\<forall>r c. res = Some (r, c) \<longrightarrow> first_match sv pm sh r c)"
proof -
  obtain sh' res where f: "find_in_rows sv pm sh [1 .. max_row sh] = Inr (sh', res)"
      "cellv sh' = cellv sh"
      "res = None \<longrightarrow> (\<forall>r c. 1 \<le> r \<and> r \<le> max_row sh \<and> 1 \<le> c \<longrightarrow> \<not> cell_matches sv pm (cellv sh r c))"
      "\<forall>r c. res = Some (r, c) \<longrightarrow>
         1 \<le> r \<and> r \<le> max_row sh \<and> 1 \<le> c \<and> cell_matches sv pm (cellv sh r c) \<and>
         (\<forall>c'. 1 \<le> c' \<and> c' < c \<longrightarrow> \<not> cell_matches sv pm (cellv sh r c')) \<and>
         (\<forall>r' c'. 1 \<le> r' \<and> r' < r \<and> 1 \<le> c' \<longrightarrow> \<not> cell_matches sv pm (cellv sh r' c'))"
    using find_in_rows_eq[of 1 sv pm sh "max_row sh"] by auto
  have eq: "find_cell_by_value rd sv pm = Inr (put_sheet rd sh', res)"
    using assms f(1) by (simp add: find_cell_by_value_def)
  have none: "res = None \<longrightarrow> (\<forall>(r::int) (c::int). 1 \<le> r \<and> 1 \<le> c \<longrightarrow> \<not> cell_matches sv pm (cellv sh r c))"
  proof (intro impI allI)
    fix r c :: int
    assume n: "res = None" and rc: "1 \<le> r \<and> 1 \<le> c"
    show "\<not> cell_matches sv pm (cellv sh r c)"
    proof (cases "r \<le> max_row sh")
      case True
      then show ?thesis using f(3) n rc by blast
    next
      case False
      then have "cellv sh r c = VNone" using stored_bounds[of sh r c] by auto
      then show ?thesis using cell_matches_not_None by metis
    qed
  qed
  have some: "\<forall>r c. res = Some (r, c) \<longrightarrow> first_match sv pm sh r c"
    using f(4) unfolding first_match_def by blast
  show ?thesis
    using eq same_cells_put[OF assms f(2)] none some by blast
qed

text \<open>What \<open>extract_data_for_proposal\<close> returns for a selected sheet, by fields.\<close>

lemma extract_shape:
  assumes sel: "the_sheet rd = Some sh"
  shows "\<exists>rd' d2 res.
     (\<forall>k. k \<noteq> ''custo'' \<longrightarrow> d2 k = nome_rows_on (rcell rd) initial_data [1 .. 9] k) \<and>
     ((\<forall>r c. \<not> is_custo_value (rcell rd r c)) \<longrightarrow> d2 = nome_rows_on (rcell rd) initial_data [1 .. 9]) \<and>
     (res = None \<longrightarrow> (\<forall>(r::int) (c::int). 1 \<le> r \<and> 1 \<le> c \<longrightarrow> \<not> cell_matches (ustr ''SEGURO'') True (cellv sh r c))) \<and>
     (\<forall>r c. res = Some (r, c) \<longrightarrow> first_match (ustr ''SEGURO'') True sh r c) \<and>
     extract_data_for_proposal rd
       = Inr (rd', case res of None \<Rightarrow> d2 | Some (r, c) \<Rightarrow> d2(''seguro'' \<mapsto> cellv sh r c)) \<and>
     same_cells rd rd'"
proof -
  let ?d1 = "nome_rows_on (rcell rd) initial_data [1 .. 9]"
  obtain rd1 where n: "nome_rows rd initial_data [1 .. 9] = (rd1, ?d1)" "same_cells rd rd1"
    using nome_rows_eq by blast
  obtain rd2 d2 where c: "custo_rows rd1 ?d1 [cur_max_row rd1 - 20 .. cur_max_row rd1] = (rd2, d2)"
      "same_cells rd1 rd2" "\<forall>k. k \<noteq> ''custo'' \<longrightarrow> d2 k = ?d1 k"
      "(\<forall>r c. \<not> is_custo_value (rcell rd1 r c)) \<longrightarrow> d2 = ?d1"
    using custo_rows_frame by blast
  have s2: "same_cells rd rd2" using n(2) c(2) by (rule same_cells_trans)
  obtain sh2 where sh2: "the_sheet rd2 = Some sh2" "cellv sh2 = cellv sh"
    using same_cells_sheet[OF s2 sel] by blast
  obtain rd3 res where f: "find_cell_by_value rd2 (ustr ''SEGURO'') True = Inr (rd3, res)"
      "same_cells rd2 rd3"
      "res = None \<longrightarrow> (\<forall>(r::int) (c::int). 1 \<le> r \<and> 1 \<le> c \<longrightarrow> \<not> cell_matches (ustr ''SEGURO'') True (cellv sh2 r c))"
      "\<forall>r c. res = Some (r, c) \<longrightarrow> first_match (ustr ''SEGURO'') True sh2 r c"
    using find_cell_by_value_eq[OF sh2(1)] by blast
  have s3: "same_cells rd rd3" using s2 f(2) by (rule same_cells_trans)
  have fm: "first_match (ustr ''SEGURO'') True sh2 = first_match (ustr ''SEGURO'') True sh"
    using sh2(2) by (simp add: first_match_def fun_eq_iff)
  show ?thesis
  proof (cases res)
    case None
    have "extract_data_for_proposal rd = Inr (rd3, d2)"
      using sel n(1) c(1) f(1) None by (simp add: extract_data_for_proposal_def)
    moreover have "(\<forall>r c. \<not> is_custo_value (rcell rd r c)) \<longrightarrow> d2 = ?d1"
      using c(4) same_cells_rcell[OF n(2)] by simp
    moreover have "\<forall>r c. 1 \<le> r \<and> 1 \<le> c \<longrightarrow> \<not> cell_matches (ustr ''SEGURO'') True (cellv sh r c)"
      using f(3) None sh2(2) by simp
    ultimately show ?thesis
      using None c(3) s3 by (intro exI[of _ rd3] exI[of _ d2] exI[of _ None]) simp
  next
    case (Some pos)
    obtain r c where pos: "pos = (r, c)" by (cases pos)
    have m: "first_match (ustr ''SEGURO'') True sh r c"
      using f(4) Some pos fm by simp
    then have rc: "1 \<le> r" "1 \<le> c" by (auto simp: first_match_def)
    obtain rd4 where e: "extract_cell_value rd3 r c = (rd4, rcell rd3 r c)" "same_cells rd3 rd4"
      using extract_cell_value_eq by blast
    have v: "rcell rd3 r c = cellv sh r c"
      using same_cells_rcell[OF s3] rcell_selected[OF sel rc] by simp
    have "extract_data_for_proposal rd = Inr (rd4, d2(''seguro'' \<mapsto> cellv sh r c))"
      using sel n(1) c(1) f(1) Some pos e(1) v by (simp add: extract_data_for_proposal_def)
    moreover have "(\<forall>r c. \<not> is_custo_value (rcell rd r c)) \<longrightarrow> d2 = ?d1"
      using c(4) same_cells_rcell[OF n(2)] by simp
    ultimately show ?thesis
      using c(3) m same_cells_trans[OF s3 e(2)]
      by (intro exI[of _ rd4] exI[of _ d2] exI[of _ "Some (r, c)"]) simp
  qed
qed

lemma example_selected: "the_sheet example_reader = Some example_sheet"
  by (simp add: the_sheet_def example_reader_def)

lemma example_cellv:
  "cellv example_sheet r c =
     (if r = 2 \<and> c = 3 then VStr (ustr ''Acme Corp'')
      else if r = 40 \<and> c = 2 then VStr (ustr ''SEGURO'')
      else if r = 40 \<and> c = 3 then VStr incluido else VNone)"
  by (simp add: cellv_def example_sheet_def)

lemma example_first_match: "first_match (ustr ''SEGURO'') True example_sheet 40 2"
  unfolding first_match_def example_cellv
  by (auto simp: cell_matches_def ustr_def lower_def lower_cp_def)

lemma extract_seguro:
  assumes "the_sheet rd = Some sh" "first_match (ustr ''SEGURO'') True sh row col"
  shows "\<exists>rd' d. extract_data_for_proposal rd = Inr (rd', d) \<and> d ''seguro'' = Some (cellv sh row col)"
proof -
  obtain rd' d2 res where e:
      "res = None \<longrightarrow> (\<forall>r c. 1 \<le> r \<and> 1 \<le> c \<longrightarrow> \<not> cell_matches (ustr ''SEGURO'') True (cellv sh r c))"
      "\<forall>r c. res = Some (r, c) \<longrightarrow> first_match (ustr ''SEGURO'') True sh r c"
      "extract_data_for_proposal rd
         = Inr (rd', case res of None \<Rightarrow> d2 | Some (r, c) \<Rightarrow> d2(''seguro'' \<mapsto> cellv sh r c))"
    using extract_shape[OF assms(1)] by blast
  have "res \<noteq> None" using e(1) assms(2) unfolding first_match_def by blast
  then obtain r c where rc: "res = Some (r, c)" by (cases res) auto
  then have "r = row \<and> c = col"
    using e(2) assms(2) first_match_unique by blast
  then show ?thesis using e(3) rc by simp
qed

lemma two_names_selected: "the_sheet two_names_reader = Some two_names_sheet"
  by (simp add: the_sheet_def two_names_reader_def)

lemma two_names_rcell:
  "rcell two_names_reader r c =
     (if r = 1 \<and> c = 1 then VStr (ustr ''Acme Corp'')
      else if r = 2 \<and> c = 1 then VStr (ustr ''Obra Nova'') else VNone)"
  by (simp add: rcell_def two_names_selected cellv_def two_names_sheet_def)

lemma two_names_loop:
  "nome_rows_on (rcell two_names_reader) initial_data [1 .. 9] ''nome_cliente''
     = Some (VStr (ustr ''Obra Nova''))"
  by (simp add: two_names_rcell is_client_name_def ustr_def upto_rec1)

section \<open>The claims about the field extractor\<close>

lemma extract_nome_cliente:
  assumes "the_sheet rd = Some sh"
  shows "extracted_field rd ''nome_cliente''
           = nome_rows_on (rcell rd) initial_data [1 .. 9] ''nome_cliente''"
proof -
  obtain rd' d2 res where e:
      "\<forall>k. k \<noteq> ''custo'' \<longrightarrow> d2 k = nome_rows_on (rcell rd) initial_data [1 .. 9] k"
      "extract_data_for_proposal rd
         = Inr (rd', case res of None \<Rightarrow> d2 | Some (r, c) \<Rightarrow> d2(''seguro'' \<mapsto> cellv sh r c))"
    using extract_shape[OF assms] by blast
  show ?thesis
    using e by (cases res) (auto simp: extracted_field_def)
qed

lemma nome_cols_on_none:
  "(\<forall>c. \<not> is_client_name (f row c)) \<Longrightarrow> nome_cols_on f d row cols = d"
  by (induction cols) auto

lemma nome_rows_on_none:
  "(\<forall>r c. \<not> is_client_name (f r c)) \<Longrightarrow> nome_rows_on f d rows = d"
  by (induction rows) (auto simp: nome_cols_on_none)

lemma blank_cellv:
  assumes "\<forall>kv \<in> set sh. snd kv = VNone"
  shows "cellv sh row col = VNone"
proof (cases "map_of sh (row, col)")
  case None
  then show ?thesis by (simp add: cellv_def)
next
  case (Some v)
  then have "((row, col), v) \<in> set sh" by (rule map_of_SomeD)
  then have "v = VNone" using assms by force
  then show ?thesis using Some by (simp add: cellv_def)
qed

text \<open>
  C1 (as amended). When some cell's text contains \<open>SEGURO\<close> (lower case compared), the
  field \<open>seguro\<close> is the value of the first such cell in row-major order: the label cell
  itself. No neighbouring cell is read.
\<close>

theorem seguro_is_label_cell:
  assumes "the_sheet rd = Some sh" "first_match (ustr ''SEGURO'') True sh row col"
  shows "\<exists>rd' d. extract_data_for_proposal rd = Inr (rd', d) \<and>
           d ''seguro'' = Some (cellv sh row col) \<and>
           cell_matches (ustr ''SEGURO'') True (cellv sh row col)"
  using extract_seguro[OF assms] assms(2) by (auto simp: first_match_def)

theorem seguro_is_label_cell_witness:
  "the_sheet example_reader = Some example_sheet \<and>
   first_match (ustr ''SEGURO'') True example_sheet 40 2 \<and>
   (\<exists>rd' d. extract_data_for_proposal example_reader = Inr (rd', d) \<and>
      d ''seguro'' = Some (cellv example_sheet 40 2) \<and>
      cell_matches (ustr ''SEGURO'') True (cellv example_sheet 40 2))"
  using seguro_is_label_cell[OF example_selected example_first_match]
    example_selected example_first_match
  by blast

text \<open>
  C1 as stated fails on the example of the specification: with \<open>Acme Corp\<close> at (2,3), the
  label \<open>SEGURO\<close> at (40,2) and \<open>Inclu\<close>i-acute\<open>do\<close> at (40,3), the field is the label's
  text and not the text of the cell to its right.
\<close>

theorem seguro_not_adjacent_cell:
  "cellv example_sheet 40 3 = VStr incluido \<and>
   extracted_field example_reader ''seguro'' = Some (VStr (ustr ''SEGURO'')) \<and>
   extracted_field example_reader ''seguro'' \<noteq> Some (VStr incluido)"
proof -
  have "extracted_field example_reader ''seguro'' = Some (VStr (ustr ''SEGURO''))"
    using extract_seguro[OF example_selected example_first_match]
    by (auto simp: extracted_field_def example_cellv)
  moreover have "ustr ''SEGURO'' \<noteq> incluido"
    by (simp add: ustr_def incluido_def)
  ultimately show ?thesis
    by (simp add: example_cellv)
qed

text \<open>
  C2. The claim says the first cell of the window in row-major order that holds a string
  longer than 3 is the client name and no later cell replaces it. The code at a sheet with
  \<open>Acme Corp\<close> at (1,1) and \<open>Obra Nova\<close> at (2,1): the \<open>break\<close> ends the scan of row 1
  only, row 2 assigns the field again, and \<open>extract_data_for_proposal\<close> returns the later
  cell.
\<close>

theorem nome_cliente_later_row_wins:
  "rcell two_names_reader 1 1 = VStr (ustr ''Acme Corp'') \<and>
   is_client_name (rcell two_names_reader 1 1) \<and>
   extracted_field two_names_reader ''nome_cliente'' = Some (VStr (ustr ''Obra Nova''))"
  using extract_nome_cliente[OF two_names_selected] two_names_loop
  by (simp add: two_names_rcell is_client_name_def ustr_def)

text \<open>
  C6. Reading a cell returns \<open>None\<close> when no sheet is selected, when the row or the column
  is below 1, and when the row or the column is beyond the extent of the sheet. The read has
  no error result: \<open>extract_cell_value\<close> catches the error of the sheet.
\<close>

theorem extract_cell_value_out_of_range:
  assumes "current_sheet rd = None \<or> row < 1 \<or> col < 1 \<or>
           cur_max_row rd < row \<or> cur_max_column rd < col"
  shows "snd (extract_cell_value rd row col) = VNone"
proof -
  have v: "snd (extract_cell_value rd row col) = rcell rd row col"
    using extract_cell_value_eq[of rd row col] by auto
  show ?thesis
  proof (cases "the_sheet rd")
    case None
    then show ?thesis using v by (simp add: rcell_def)
  next
    case (Some sh)
    then have sel: "current_sheet rd \<noteq> None"
      by (auto simp: the_sheet_def split: option.splits)
    show ?thesis
    proof (cases "row < 1 \<or> col < 1")
      case True
      then show ?thesis using v Some by (simp add: rcell_def)
    next
      case False
      then have "max_row sh < row \<or> max_column sh < col"
        using assms sel Some by (simp add: cur_max_row_def cur_max_column_def)
      then have "cellv sh row col = VNone"
        using stored_bounds[of sh row col] by fastforce
      then show ?thesis using v Some False by (simp add: rcell_def)
    qed
  qed
qed

theorem extract_cell_value_out_of_range_witness:
  "cur_max_row example_reader < 41 \<and> snd (extract_cell_value example_reader 41 2) = VNone \<and>
   snd (extract_cell_value example_reader 0 3) = VNone \<and>
   current_sheet (example_reader\<lparr>current_sheet := None\<rparr>) = None \<and>
   snd (extract_cell_value (example_reader\<lparr>current_sheet := None\<rparr>) 2 3) = VNone"
proof -
  have h: "cur_max_row example_reader < 41"
    by (simp add: cur_max_row_def example_selected max_row_def example_sheet_def)
  have "snd (extract_cell_value example_reader 41 2) = VNone"
    using extract_cell_value_out_of_range[of example_reader 41 2] h by simp
  moreover have "snd (extract_cell_value example_reader 0 3) = VNone"
    using extract_cell_value_out_of_range[of example_reader 0 3] by simp
  moreover have "snd (extract_cell_value (example_reader\<lparr>current_sheet := None\<rparr>) 2 3) = VNone"
    using extract_cell_value_out_of_range[of "example_reader\<lparr>current_sheet := None\<rparr>" 2 3]
    by simp
  ultimately show ?thesis using h by simp
qed

lemma initial_text: "list_all (\<lambda>k. initial_data k = Some (VStr [])) text_fields"
  by (simp add: initial_data_def text_fields_def)

lemma initial_custo: "initial_data ''custo'' = Some VNone"
  by (simp add: initial_data_def)

lemma initial_dom: "dom initial_data = set (''custo'' # text_fields)"
  unfolding initial_data_def text_fields_def dom_fun_upd by auto

lemma extract_blank:
  assumes "the_sheet rd = Some sh" "\<forall>kv \<in> set sh. snd kv = VNone"
  shows "\<exists>rd'. extract_data_for_proposal rd = Inr (rd', initial_data)"
proof -
  have cv: "cellv sh r c = VNone" for r c
    using blank_cellv[OF assms(2)] .
  have rc: "rcell rd r c = VNone" for r c
    using assms(1) cv by (simp add: rcell_def)
  have nc: "\<forall>r c. \<not> is_custo_value (rcell rd r c)"
    by (simp add: rc is_custo_value_def)
  have nn: "\<forall>r c. \<not> is_client_name (rcell rd r c)"
    by (simp add: rc is_client_name_def)
  from extract_shape[OF assms(1)] obtain rd' d2 res where e:
      "(\<forall>r c. \<not> is_custo_value (rcell rd r c)) \<longrightarrow> d2 = nome_rows_on (rcell rd) initial_data [1 .. 9]"
      "\<forall>r c. res = Some (r, c) \<longrightarrow> first_match (ustr ''SEGURO'') True sh r c"
      "extract_data_for_proposal rd
         = Inr (rd', case res of None \<Rightarrow> d2 | Some (r, c) \<Rightarrow> d2(''seguro'' \<mapsto> cellv sh r c))"
    by (elim exE conjE) (rule that)
  have "res = None"
  proof (cases res)
    case None
    then show ?thesis .
  next
    case (Some pos)
    then have "first_match (ustr ''SEGURO'') True sh (fst pos) (snd pos)"
      using e(2) by (cases pos) simp
    then have "cell_matches (ustr ''SEGURO'') True VNone"
      unfolding first_match_def cv by blast
    then show ?thesis using cell_matches_not_None by blast
  qed
  moreover have "d2 = nome_rows_on (rcell rd) initial_data [1 .. 9]"
    using e(1) nc by blast
  moreover have "nome_rows_on (rcell rd) initial_data [1 .. 9] = initial_data"
    using nn by (rule nome_rows_on_none)
  ultimately have "extract_data_for_proposal rd = Inr (rd', initial_data)"
    using e(3) by simp
  then show ?thesis by blast
qed

text \<open>
  C7. For a selected sheet without a populated cell (every stored cell is empty),
  \<open>extract_data_for_proposal\<close> returns, without an error, the dictionary of the defaults:
  the empty string for the nine text fields and \<open>None\<close> for \<open>custo\<close>.
\<close>

theorem extract_blank_sheet:
  assumes "the_sheet rd = Some sh" "\<forall>kv \<in> set sh. snd kv = VNone"
  shows "(\<exists>rd'. extract_data_for_proposal rd = Inr (rd', initial_data)) \<and>
         list_all (\<lambda>k. initial_data k = Some (VStr [])) text_fields \<and>
         initial_data ''custo'' = Some VNone \<and>
         dom initial_data = set (''custo'' # text_fields)"
  using extract_blank[OF assms] initial_text initial_custo initial_dom by (intro conjI)

theorem extract_blank_sheet_witness:
  "the_sheet blank_reader = Some [((3, 2), VNone)] \<and>
   (\<exists>rd'. extract_data_for_proposal blank_reader = Inr (rd', initial_data))"
proof -
  have s: "the_sheet blank_reader = Some [((3, 2), VNone)]"
    by (simp add: the_sheet_def blank_reader_def)
  have b: "\<forall>kv \<in> set [((3::int, 2::int), VNone)]. snd kv = VNone"
    by simp
  have "\<exists>rd'. extract_data_for_proposal blank_reader = Inr (rd', initial_data)"
    using extract_blank_sheet[OF s b] by (rule conjunct1)
  then show ?thesis
    using s by (intro conjI)
qed

text \<open>
  C10. Selecting a name that is not among the sheet names returns False and leaves the
  reader as it was: the selection is unchanged and the next extraction is the one the
  reader would have made without the call.
\<close>

theorem select_sheet_unknown_keeps_state:
  assumes "sheet_name \<notin> set (sheet_names rd)"
  shows "select_sheet rd sheet_name = (rd, False) \<and>
         extract_data_for_proposal (fst (select_sheet rd sheet_name))
           = extract_data_for_proposal rd"
  using select_sheet_unknown[OF assms] by simp

theorem select_sheet_unknown_keeps_state_witness:
  "ustr ''Plan2'' \<notin> set (sheet_names example_reader) \<and>
   select_sheet example_reader (ustr ''Plan2'') = (example_reader, False) \<and>
   extract_data_for_proposal (fst (select_sheet example_reader (ustr ''Plan2'')))
     = extract_data_for_proposal example_reader"
proof -
  have h: "ustr ''Plan2'' \<notin> set (sheet_names example_reader)"
    by (simp add: sheet_names_def example_reader_def ustr_def)
  show ?thesis
    using select_sheet_unknown_keeps_state[OF h] h by blast
qed

section \<open>The rendering of a cost\<close>





lemma decimal_hd: "decimal n \<noteq> [] \<and> (0 < n \<longrightarrow> hd (decimal n) \<noteq> 48)"
proof (induction n rule: decimal.induct)
  case (1 n)
  show ?case
  proof (cases "n < 10")
    case True
    then show ?thesis by (subst (1 2) decimal.simps) simp
  next
    case False
    then have "0 < n div 10" by simp
    then have "decimal (n div 10) \<noteq> []" "hd (decimal (n div 10)) \<noteq> 48"
      using 1 False by simp_all
    then show ?thesis
      using False by (subst (1 2) decimal.simps) simp
  qed
qed

lemma decimal_length: "10 \<le> n \<Longrightarrow> 2 \<le> length (decimal n)"
  using decimal_hd[of "n div 10"]
  by (subst decimal.simps) (cases "decimal (n div 10)", simp_all)






















section \<open>Occurrences of a text and what a replacement keeps\<close>


lemma py_in_occurrences: "py_in t s \<longleftrightarrow> 0 < occurrences t s"
  by (induction s) auto












section \<open>Assigning a text\<close>

lemma run_content_ok:
  "run_content bfr s = (t, None) \<Longrightarrow> t = bfr @ read_back s"
proof (induction s arbitrary: bfr t)
  case Nil
  then show ?case by (auto simp: read_back_def split: if_splits)
next
  case (Cons c s)
  show ?case
  proof (cases "c = 9 \<or> c = 10 \<or> c = 13")
    case True
    then obtain rest where r: "run_content [] s = (rest, None)"
        "t = bfr @ (if c = 9 then 9 else 10) # rest"
      using Cons.prems by (auto split: if_splits prod.splits)
    have "rest = read_back s" using Cons.IH[OF r(1)] by simp
    then show ?thesis using r(2) True by (auto simp: read_back_def)
  next
    case False
    then have "run_content (bfr @ [c]) s = (t, None)" using Cons.prems by simp
    then have "t = (bfr @ [c]) @ read_back s" by (rule Cons.IH)
    then show ?thesis using False by (simp add: read_back_def)
  qed
qed




section \<open>What a replacement does to the paragraphs\<close>











section \<open>What filling does to the paragraphs\<close>

lemma accept_False [simp]: "accept False r"
  by (cases r) (simp_all add: accept_def)











section \<open>Filling a document that mentions no filled field\<close>






section \<open>The placeholders of the fields without a value\<close>




section \<open>The claims about the template filler\<close>

lemmas doc_eval =
  replace_text_in_document_def find_and_replace_placeholder_def body_step_def table_step_def
  replace_in_para_def para_text_def set_para_text_def set_run_text_def xml_char_def
  one_paragraph_def plain_def ustr_def lower_def lower_cp_def replace_def





lemma rewrite_runs_keeps_runs:
  assumes "para_runs p = r # rs" "rewrite_runs t p = (p', e)"
  shows "length (para_runs p') = length (para_runs p) \<and>
         run_format (hd (para_runs p')) = run_format r \<and>
         (e = None \<longrightarrow> para_text p' = read_back t)"
proof -
  obtain s where s: "run_content [] t = (s, e)"
      "p' = p\<lparr>para_runs := r\<lparr>run_text := s\<rparr> # map (\<lambda>x. x\<lparr>run_text := []\<rparr>) rs\<rparr>"
    using assms by (auto simp: rewrite_runs_def set_run_text_def split: prod.splits)
  have "concat (map run_text (map (\<lambda>x. x\<lparr>run_text := []\<rparr>) rs)) = []"
    by (induction rs) auto
  then have tx: "para_text p' = s" using s(2) by (simp add: para_text_def)
  have "s = read_back t" if "e = None"
    using run_content_ok[of "[]" t s] s(1) that by simp
  then have "e = None \<longrightarrow> para_text p' = read_back t" using tx by simp
  moreover have "length (para_runs p') = length (para_runs p)"
    using s(2) assms(1) by simp
  moreover have "run_format (hd (para_runs p')) = run_format r"
    using s(2) by simp
  ultimately show ?thesis by blast
qed

text \<open>
  C3. The claim: whenever a replace operation rewrites a paragraph, the first run keeps its
  formatting and receives the new text and the other runs are emptied, never removed.
  \<open>replace_text_in_paragraph\<close> does so (\<open>rewrite_runs_keeps_runs\<close>).
  \<open>replace_text_in_document\<close>, which every fill goes through, assigns the text of the
  paragraph instead: a paragraph of two runs, the first one bold, comes out with a single
  run without formatting.
\<close>

theorem replace_everywhere_drops_runs:
  "map para_runs (all_paragraphs (doc_body two_runs_doc))
     = [[\<lparr>run_text = ustr ''{{CLIENTE}}'', run_format = [''bold'']\<rparr>,
         \<lparr>run_text = ustr '' Ltda'', run_format = [''italic'']\<rparr>]] \<and>
   map para_runs (all_paragraphs (doc_body (fst
       (replace_text_in_document two_runs_doc (ustr ''{{CLIENTE}}'') (ustr ''Acme'') True))))
     = [[\<lparr>run_text = ustr ''Acme Ltda'', run_format = []\<rparr>]]"
  by (simp add: two_runs_doc_def all_paragraphs_def doc_eval)

text \<open>
  C4. The claim: with a partial match the number returned is the number of paragraphs whose
  text was modified. The test compares in lower case and the replacement does not: for the
  paragraph \<open>{{cliente}}\<close>, the old text \<open>{{CLIENTE}}\<close> and the new text \<open>Acme\<close> the
  document is returned as it was, and the count is 1.
\<close>

theorem replace_counts_unmodified_paragraph:
  "replace_text_in_document lower_case_doc (ustr ''{{CLIENTE}}'') (ustr ''Acme'') True
     = (lower_case_doc, Inr 1)"
  by (simp add: lower_case_doc_def doc_eval)

text \<open>
  C5. The claim: when a paragraph contains the title, the content becomes a new paragraph
  immediately after it. The index the search returns is not used: in a document with the
  paragraphs \<open>Escopo\<close> and \<open>Prazo\<close>, adding the section \<open>Escopo\<close> puts the content
  after \<open>Prazo\<close>, at the end of the document.
\<close>

theorem add_section_appends_at_end:
  "find_paragraph_by_text sections_doc (ustr ''Escopo'') True = Some 0 \<and>
   map para_text (paragraphs (doc_body (fst
       (add_section_if_not_exists sections_doc (ustr ''Escopo'') (ustr ''Detalhes'')))))
     = [ustr ''Escopo'', ustr ''Prazo'', ustr ''Detalhes''] \<and>
   snd (add_section_if_not_exists sections_doc (ustr ''Escopo'') (ustr ''Detalhes''))"
  by (simp add: sections_doc_def add_section_if_not_exists_def find_paragraph_by_text_def
      add_paragraph_def set_run_text_def xml_char_def para_text_def plain_def ustr_def
      lower_def lower_cp_def)


















end
